theory Spec2Isabelle
  imports Complex_Main
begin

section \<open>Python values shared by the three modules\<close>

text \<open>
  A Python \<open>str\<close> is a sequence of Unicode code points, and \<open>len\<close> counts code points, so a
  string coming from outside the program is a list of code points. String literals of the
  source are written with \<open>lit\<close>.
\<close>

type_synonym pystr = "nat list"

definition lit :: "string \<Rightarrow> pystr" where
  "lit s = map of_char s"

text \<open>\<open>str.isspace\<close> for one code point: the whitespace table of CPython.\<close>

definition py_isspace :: "nat \<Rightarrow> bool" where
  "py_isspace c \<longleftrightarrow>
     (9 \<le> c \<and> c \<le> 13) \<or> (28 \<le> c \<and> c \<le> 32) \<or> c = 133 \<or> c = 160 \<or> c = 5760 \<or>
     (8192 \<le> c \<and> c \<le> 8202) \<or> c = 8232 \<or> c = 8233 \<or> c = 8239 \<or> c = 8287 \<or> c = 12288"

text \<open>\<open>s.strip()\<close>: leading and trailing whitespace removed.\<close>

definition strip :: "pystr \<Rightarrow> pystr" where
  "strip s = rev (dropWhile py_isspace (rev (dropWhile py_isspace s)))"

text \<open>The exceptions that can leave a function of the repository uncaught.\<close>

datatype py_error = IndexError | AttributeError | TypeError | RequestException

datatype 'a outcome = Returns 'a | Raises py_error

text \<open>
  Values produced by \<open>json.loads\<close> and written by \<open>json.dump\<close>. A dict keeps its items in
  insertion order. Numbers are rationals; NaN and the infinities are left out.
\<close>

datatype json =
    JNull
  | JBool bool
  | JNum rat
  | JStr pystr
  | JArr "json list"
  | JObj "(pystr \<times> json) list"

section \<open>Extraction.py\<close>

record page_data =
  page_num :: int
  ptext :: pystr

text \<open>What the program does to the outside world, in the order it does it.\<close>

datatype file_data = Bytes "char list" | JsonDump json

datatype qval = QStr pystr | QInt int

datatype event =
    HttpPost page_data
  | HttpGet pystr "(string \<times> qval) list"
  | Sleep rat
  | Mkdir pystr
  | FileWrite pystr file_data
  | StSuccess pystr
  | StError pystr

subsection \<open>The reply of the generative endpoint\<close>

text \<open>
  The body of a reply, as \<open>response.json()\<close> gives it: every key may be missing, and the two
  lists may be empty. The field \<open>text\<close> is a string when present, as the return annotation
  \<open>str | None\<close> of \<open>call_gemini_for_extraction\<close> has it.
\<close>

datatype part = Part (part_text: "pystr option")
datatype content = Content (content_parts: "part list option")
datatype candidate = Candidate (candidate_content: "content option")
datatype gen_response = GenResponse (candidates: "candidate list option")

text \<open>
  \<open>requests.post\<close> followed by \<open>response.json()\<close>: the request raises a \<open>RequestException\<close>
  (a body that is not JSON makes \<open>response.json()\<close> raise one as well), or a response with a
  status code and a decoded body arrives. \<open>raise_for_status\<close> is the test on the status code
  in \<open>try_request\<close>. The calls of \<open>print\<close> are left out of the model.
\<close>

datatype api_reply = RequestFailed | Reply nat gen_response

text \<open>\<open>xs[0]\<close> on a list.\<close>

definition first_item :: "'a list \<Rightarrow> 'a outcome" where
  "first_item xs = (case xs of [] \<Rightarrow> Raises IndexError | x # _ \<Rightarrow> Returns x)"

text \<open>
  \<open>result.get('candidates', [{}])[0].get('content', {}).get('parts', [{}])[0].get('text')\<close>
\<close>

definition extract_json_text :: "gen_response \<Rightarrow> pystr option outcome" where
  "extract_json_text result =
     (case first_item (case candidates result of None \<Rightarrow> [Candidate None] | Some cs \<Rightarrow> cs) of
        Raises e \<Rightarrow> Raises e
      | Returns cand \<Rightarrow>
          (case first_item
                  (case content_parts
                          (case candidate_content cand of None \<Rightarrow> Content None | Some c \<Rightarrow> c) of
                     None \<Rightarrow> [Part None]
                   | Some ps \<Rightarrow> ps) of
             Raises e \<Rightarrow> Raises e
           | Returns p \<Rightarrow> Returns (part_text p)))"

text \<open>
  The body of the \<open>try\<close> statement for one attempt. \<open>Returns (Some t)\<close> is the \<open>return json_text\<close>;
  \<open>Returns None\<close> is an attempt that falls through to the backoff (the exception was caught, or
  \<open>json_text\<close> was falsy); an \<open>IndexError\<close> is not caught.
\<close>

definition try_request :: "api_reply \<Rightarrow> pystr option outcome" where
  "try_request r =
     (case r of
        RequestFailed \<Rightarrow> Returns None
      | Reply status body \<Rightarrow>
          if 400 \<le> status \<and> status < 600 then Returns None
          else (case extract_json_text body of
                  Raises e \<Rightarrow> Raises e
                | Returns None \<Rightarrow> Returns None
                | Returns (Some json_text) \<Rightarrow>
                    if json_text \<noteq> [] then Returns (Some json_text) else Returns None))"

text \<open>
  The loop \<open>for attempt in range(max_retries)\<close>, as a recursion over the attempts that remain.
  \<open>reply attempt\<close> is what the endpoint answers to that attempt.
\<close>

fun attempt_loop ::
  "(nat \<Rightarrow> api_reply) \<Rightarrow> page_data \<Rightarrow> int \<Rightarrow> nat list \<Rightarrow> pystr option outcome \<times> event list"
where
  "attempt_loop reply page max_retries [] = (Returns None, [])"
| "attempt_loop reply page max_retries (attempt # rest) =
     (case try_request (reply attempt) of
        Raises e \<Rightarrow> (Raises e, [HttpPost page])
      | Returns (Some json_text) \<Rightarrow> (Returns (Some json_text), [HttpPost page])
      | Returns None \<Rightarrow>
          (let backoff = (if int attempt < max_retries - 1 then [Sleep (2 ^ attempt)] else []);
               later = attempt_loop reply page max_retries rest
           in (fst later, HttpPost page # backoff @ snd later)))"

definition call_gemini_for_extraction ::
  "(page_data \<Rightarrow> nat \<Rightarrow> api_reply) \<Rightarrow> page_data \<Rightarrow> int \<Rightarrow> pystr option outcome \<times> event list"
where
  "call_gemini_for_extraction api page max_retries =
     attempt_loop (api page) page max_retries [0..<nat max_retries]"

subsection \<open>Reading a trace\<close>

fun waits :: "event list \<Rightarrow> rat list" where
  "waits [] = []"
| "waits (Sleep d # es) = d # waits es"
| "waits (e # es) = waits es"

definition total_wait :: "event list \<Rightarrow> rat" where
  "total_wait tr = sum_list (waits tr)"

fun posts :: "event list \<Rightarrow> nat" where
  "posts [] = 0"
| "posts (HttpPost p # es) = Suc (posts es)"
| "posts (e # es) = posts es"

text \<open>
  A failed attempt in the words of the specification: a transport or HTTP exception, or a
  response from which no text can be taken (the field is missing or empty).
\<close>

definition attempt_fails :: "api_reply \<Rightarrow> bool" where
  "attempt_fails r =
     (case r of
        RequestFailed \<Rightarrow> True
      | Reply status body \<Rightarrow>
          (400 \<le> status \<and> status < 600) \<or>
          extract_json_text body = Returns None \<or> extract_json_text body = Returns (Some []))"

definition attempt_succeeds :: "api_reply \<Rightarrow> pystr \<Rightarrow> bool" where
  "attempt_succeeds r t =
     (case r of
        RequestFailed \<Rightarrow> False
      | Reply status body \<Rightarrow>
          \<not> (400 \<le> status \<and> status < 600) \<and> extract_json_text body = Returns (Some t) \<and> t \<noteq> [])"

subsection \<open>Page texts of a PDF\<close>

text \<open>
  \<open>fitz.open\<close> raises, or gives a document; a document is the text of each of its pages, in
  page order (\<open>document.load_page(n).get_text()\<close> is the entry at index \<open>n\<close>).
\<close>

type_synonym document = "pystr list"

text \<open>
  The loop \<open>for page_num in range(document.page_count)\<close>; the indices come from the range, so
  every read is inside the document.
\<close>

fun page_loop :: "document \<Rightarrow> nat list \<Rightarrow> page_data list \<Rightarrow> page_data list" where
  "page_loop document [] page_texts = page_texts"
| "page_loop document (n # ns) page_texts =
     (let text = document ! n
      in page_loop document ns
           (if length (strip text) > 100
            then page_texts @ [\<lparr>page_num = int n + 1, ptext = text\<rparr>]
            else page_texts))"

definition extract_text_from_pdf :: "(pystr \<Rightarrow> document option) \<Rightarrow> pystr \<Rightarrow> page_data list" where
  "extract_text_from_pdf fitz_open pdf_path =
     (case fitz_open pdf_path of
        None \<Rightarrow> []
      | Some document \<Rightarrow> page_loop document [0..<length document] [])"

subsection \<open>The main loop\<close>

text \<open>Truth value, \<open>len\<close> and iteration of a value that \<open>json.loads\<close> returned.\<close>

fun truthy :: "json \<Rightarrow> bool" where
  "truthy JNull = False"
| "truthy (JBool b) = b"
| "truthy (JNum n) = (n \<noteq> 0)"
| "truthy (JStr s) = (s \<noteq> [])"
| "truthy (JArr xs) = (xs \<noteq> [])"
| "truthy (JObj kvs) = (kvs \<noteq> [])"

fun py_len :: "json \<Rightarrow> nat outcome" where
  "py_len (JStr s) = Returns (length s)"
| "py_len (JArr xs) = Returns (length xs)"
| "py_len (JObj kvs) = Returns (length kvs)"
| "py_len v = Raises TypeError"

text \<open>What \<open>list.extend\<close> appends: the items of a list, the keys of a dict, the characters of a string.\<close>

fun py_iter :: "json \<Rightarrow> json list outcome" where
  "py_iter (JArr xs) = Returns xs"
| "py_iter (JObj kvs) = Returns (map (\<lambda>kv. JStr (fst kv)) kvs)"
| "py_iter (JStr s) = Returns (map (\<lambda>c. JStr [c]) s)"
| "py_iter v = Raises TypeError"

text \<open>
  The statement \<open>if json_result_str: ...\<close> of the loop body. \<open>loads\<close> is \<open>json.loads\<close>, with \<open>None\<close>
  for a \<open>JSONDecodeError\<close> (the only exception the \<open>try\<close> catches).
\<close>

definition collect_page :: "(pystr \<Rightarrow> json option) \<Rightarrow> pystr option \<Rightarrow> json list \<Rightarrow> json list outcome" where
  "collect_page loads json_result_str all_extracted_heuristics =
     (case json_result_str of
        None \<Rightarrow> Returns all_extracted_heuristics
      | Some s \<Rightarrow>
          if s = [] then Returns all_extracted_heuristics
          else (case loads s of
                  None \<Rightarrow> Returns all_extracted_heuristics
                | Some heuristics_list \<Rightarrow>
                    if truthy heuristics_list
                    then (case py_len heuristics_list of
                            Raises e \<Rightarrow> Raises e
                          | Returns n \<Rightarrow>
                              (case py_iter heuristics_list of
                                 Raises e \<Rightarrow> Raises e
                               | Returns items \<Rightarrow> Returns (all_extracted_heuristics @ items)))
                    else Returns all_extracted_heuristics))"

text \<open>The loop \<open>for page_data in all_page_data\<close>, with the list accumulated so far.\<close>

fun pages_loop ::
  "(page_data \<Rightarrow> nat \<Rightarrow> api_reply) \<Rightarrow> (pystr \<Rightarrow> json option) \<Rightarrow> page_data list \<Rightarrow> json list \<Rightarrow>
     json list outcome \<times> event list"
where
  "pages_loop api loads [] all_extracted_heuristics = (Returns all_extracted_heuristics, [])"
| "pages_loop api loads (page # rest) all_extracted_heuristics =
     (let call = call_gemini_for_extraction api page 5
      in case fst call of
           Raises e \<Rightarrow> (Raises e, snd call)
         | Returns json_result_str \<Rightarrow>
             (case collect_page loads json_result_str all_extracted_heuristics of
                Raises e \<Rightarrow> (Raises e, snd call)
              | Returns extended \<Rightarrow>
                  (let later = pages_loop api loads rest extended
                   in (fst later, snd call @ Sleep (1 / 2) # snd later))))"

text \<open>The preview \<open>for rule in all_extracted_heuristics[:3]\<close>: \<open>rule.get\<close> exists on a dict only.\<close>

fun preview :: "json list \<Rightarrow> unit outcome" where
  "preview [] = Returns ()"
| "preview (JObj kvs # rules) = preview rules"
| "preview (rule # rules) = Raises AttributeError"

definition output_filename :: pystr where
  "output_filename = lit ''extracted_heuristics.json''"

text \<open>\<open>API_KEY\<close> is the configuration constant of the module.\<close>

definition extractPDF ::
  "pystr \<Rightarrow> (pystr \<Rightarrow> document option) \<Rightarrow> (pystr \<Rightarrow> json option) \<Rightarrow> (page_data \<Rightarrow> nat \<Rightarrow> api_reply) \<Rightarrow>
     pystr \<Rightarrow> unit outcome \<times> event list"
where
  "extractPDF API_KEY fitz_open loads api pdf_file_path =
     (if API_KEY = [] then (Returns (), [])
      else
        (let all_page_data = extract_text_from_pdf fitz_open pdf_file_path
         in if all_page_data = [] then (Returns (), [])
            else
              (let looped = pages_loop api loads all_page_data []
               in case fst looped of
                    Raises e \<Rightarrow> (Raises e, snd looped)
                  | Returns all_extracted_heuristics \<Rightarrow>
                      (preview (take 3 all_extracted_heuristics),
                       snd looped @
                         [FileWrite output_filename (JsonDump (JArr all_extracted_heuristics))]))))"

text \<open>The files written in a trace, and the file system after it (mode \<open>'w'\<close> replaces the file).\<close>

fun writes :: "event list \<Rightarrow> (pystr \<times> file_data) list" where
  "writes [] = []"
| "writes (FileWrite name d # es) = (name, d) # writes es"
| "writes (e # es) = writes es"

fun files_after :: "(pystr \<Rightarrow> file_data option) \<Rightarrow> event list \<Rightarrow> (pystr \<Rightarrow> file_data option)" where
  "files_after fs [] = fs"
| "files_after fs (FileWrite name d # es) = files_after (fs(name \<mapsto> d)) es"
| "files_after fs (e # es) = files_after fs es"

text \<open>
  What one page contributes in the words of the specification: the rules of a page whose
  extraction call returned text that parsed as a JSON list, nothing for any other page.
\<close>

definition parsed_answer ::
  "(page_data \<Rightarrow> nat \<Rightarrow> api_reply) \<Rightarrow> (pystr \<Rightarrow> json option) \<Rightarrow> page_data \<Rightarrow> json option" where
  "parsed_answer api loads page =
     (case fst (call_gemini_for_extraction api page 5) of
        Returns (Some s) \<Rightarrow> loads s
      | _ \<Rightarrow> None)"

definition page_rules ::
  "(page_data \<Rightarrow> nat \<Rightarrow> api_reply) \<Rightarrow> (pystr \<Rightarrow> json option) \<Rightarrow> page_data \<Rightarrow> json list" where
  "page_rules api loads page =
     (case parsed_answer api loads page of
        Some (JArr rules) \<Rightarrow> rules
      | _ \<Rightarrow> [])"

fun is_array :: "json \<Rightarrow> bool" where
  "is_array (JArr xs) = True"
| "is_array v = False"

section \<open>QueryarXiv.py\<close>

text \<open>
  An element of \<open>xml.etree.ElementTree\<close>: its tag with the namespace written out, its
  attributes, its text (\<open>None\<close> for an element without character data) and its children in
  document order.
\<close>

datatype element =
  Element (tag: pystr) (attrib: "(pystr \<times> pystr) list") (elem_text: "pystr option")
    (children: "element list")

definition atom :: "string \<Rightarrow> pystr" where
  "atom name = lit ''{http://www.w3.org/2005/Atom}'' @ lit name"

definition arxiv :: "string \<Rightarrow> pystr" where
  "arxiv name = lit ''{http://arxiv.org/schemas/atom}'' @ lit name"

text \<open>\<open>findall\<close> and \<open>find\<close> with a path that is one tag: the children with that tag, the first of them.\<close>

definition findall :: "element \<Rightarrow> pystr \<Rightarrow> element list" where
  "findall e path = filter (\<lambda>c. tag c = path) (children e)"

definition find_elem :: "element \<Rightarrow> pystr \<Rightarrow> element option" where
  "find_elem e path = (case findall e path of [] \<Rightarrow> None | c # _ \<Rightarrow> Some c)"

text \<open>The values stored in a paper dict.\<close>

datatype pyval = PNone | PStr pystr | PList "pystr list"

type_synonym paper = "(string \<times> pyval) list"

definition of_optional :: "pystr option \<Rightarrow> pyval" where
  "of_optional t = (case t of None \<Rightarrow> PNone | Some s \<Rightarrow> PStr s)"

text \<open>
  \<open>entry.find(path).text.strip() if entry.find(path) is not None else "N/A"\<close>: on an element
  whose text is \<open>None\<close> the call of \<open>strip\<close> raises.
\<close>

definition stripped_text :: "element \<Rightarrow> pystr \<Rightarrow> pystr outcome" where
  "stripped_text entry path =
     (case find_elem entry path of
        None \<Rightarrow> Returns (lit ''N/A'')
      | Some el \<Rightarrow>
          (case elem_text el of
             None \<Rightarrow> Raises AttributeError
           | Some s \<Rightarrow> Returns (strip s)))"

text \<open>The loop over the author elements of one entry.\<close>

fun authors_loop :: "element list \<Rightarrow> pystr list \<Rightarrow> pystr list outcome" where
  "authors_loop [] authors = Returns authors"
| "authors_loop (author_elem # rest) authors =
     (case find_elem author_elem (atom ''name'') of
        None \<Rightarrow> Raises AttributeError
      | Some name_elem \<Rightarrow>
          (case elem_text name_elem of
             None \<Rightarrow> authors_loop rest authors
           | Some name \<Rightarrow> authors_loop rest (if name \<noteq> [] then authors @ [name] else authors)))"

text \<open>The body of the loop over the entries: one paper dict.\<close>

definition parse_entry :: "element \<Rightarrow> paper outcome" where
  "parse_entry entry =
     (case stripped_text entry (atom ''title'') of
        Raises e \<Rightarrow> Raises e
      | Returns title \<Rightarrow>
          (case stripped_text entry (atom ''summary'') of
             Raises e \<Rightarrow> Raises e
           | Returns summary \<Rightarrow>
               (case authors_loop (findall entry (atom ''author'')) [] of
                  Raises e \<Rightarrow> Raises e
                | Returns authors \<Rightarrow>
                    (let arxiv_id =
                           (case find_elem entry (atom ''id'') of
                              None \<Rightarrow> PStr (lit ''N/A'')
                            | Some el \<Rightarrow> of_optional (elem_text el));
                         primary_cat =
                           (case find_elem entry (arxiv ''primary_category'') of
                              None \<Rightarrow> PStr (lit ''N/A'')
                            | Some el \<Rightarrow> of_optional (map_of (attrib el) (lit ''term'')))
                     in Returns
                          [(''title'', PStr title),
                           (''authors'', PList authors),
                           (''summary'', PStr summary),
                           (''arxiv_id'', arxiv_id),
                           (''primary_category'', primary_cat)]))))"

fun entries_loop :: "element list \<Rightarrow> paper list \<Rightarrow> paper list outcome" where
  "entries_loop [] papers = Returns papers"
| "entries_loop (entry # rest) papers =
     (case parse_entry entry of
        Raises e \<Rightarrow> Raises e
      | Returns paper_data \<Rightarrow> entries_loop rest (papers @ [paper_data]))"

text \<open>
  \<open>requests.get\<close>: the request raises a \<open>RequestException\<close>, or a response with a status code
  and a body arrives. An oracle of type \<open>http\<close> gives the answer to the n-th GET of a call.
\<close>

datatype http_result = RequestError | Response nat "char list"

type_synonym http = "nat \<Rightarrow> pystr \<Rightarrow> (string \<times> qval) list \<Rightarrow> http_result"

definition ARXIV_API_URL :: pystr where
  "ARXIV_API_URL = lit ''http://export.arxiv.org/api/query''"

fun join :: "pystr \<Rightarrow> pystr list \<Rightarrow> pystr" where
  "join sep [] = []"
| "join sep [x] = x"
| "join sep (x # y # ys) = x @ sep @ join sep (y # ys)"

text \<open>The query parameters; \<open>quote\<close> is \<open>urllib.parse.quote\<close>.\<close>

definition search_params :: "(pystr \<Rightarrow> pystr) \<Rightarrow> pystr list \<Rightarrow> int \<Rightarrow> (string \<times> qval) list" where
  "search_params quote keywords max_results =
     [(''search_query'', QStr (join (lit ''+AND+'') (map (\<lambda>k. lit ''all:'' @ quote k) keywords))),
      (''start'', QInt 0),
      (''max_results'', QInt max_results)]"

text \<open>
  \<open>fromstring\<close> is \<open>ET.fromstring\<close>, with \<open>None\<close> for a \<open>ParseError\<close>, the only exception caught
  around the parsing.
\<close>

definition search_arxiv ::
  "(pystr \<Rightarrow> pystr) \<Rightarrow> http \<Rightarrow> (char list \<Rightarrow> element option) \<Rightarrow> pystr list \<Rightarrow> int \<Rightarrow>
     paper list outcome \<times> event list"
where
  "search_arxiv quote http_get fromstring keywords max_results =
     (if keywords = [] then (Returns [], [])
      else
        (let params = search_params quote keywords max_results;
             sent = [HttpGet ARXIV_API_URL params]
         in case http_get 0 ARXIV_API_URL params of
              RequestError \<Rightarrow> (Returns [], sent)
            | Response status body \<Rightarrow>
                if 400 \<le> status \<and> status < 600 then (Returns [], sent)
                else (case fromstring body of
                        None \<Rightarrow> (Returns [], sent)
                      | Some root_elem \<Rightarrow> (entries_loop (findall root_elem (atom ''entry'')) [], sent))))"


text \<open>Reading the GET requests of a trace.\<close>

fun gets :: "event list \<Rightarrow> pystr list" where
  "gets [] = []"
| "gets (HttpGet url params # es) = url # gets es"
| "gets (e # es) = gets es"

text \<open>
  The author names of an entry in the words of the specification: the non-empty names, in the
  document order of the author elements.
\<close>

definition author_name :: "element \<Rightarrow> pystr list" where
  "author_name author_elem =
     (case find_elem author_elem (atom ''name'') of
        None \<Rightarrow> []
      | Some name_elem \<Rightarrow>
          (case elem_text name_elem of None \<Rightarrow> [] | Some name \<Rightarrow> if name \<noteq> [] then [name] else []))"

definition author_names :: "element \<Rightarrow> pystr list" where
  "author_names entry = concat (map author_name (findall entry (atom ''author'')))"

text \<open>
  A well-formed entry: its title and its summary, when present, carry text, and each of its
  author elements has a name element.
\<close>

definition has_text :: "element \<Rightarrow> pystr \<Rightarrow> bool" where
  "has_text entry path =
     (case find_elem entry path of None \<Rightarrow> True | Some el \<Rightarrow> elem_text el \<noteq> None)"

definition well_formed_entry :: "element \<Rightarrow> bool" where
  "well_formed_entry entry \<longleftrightarrow>
     has_text entry (atom ''title'') \<and> has_text entry (atom ''summary'') \<and>
     list_all (\<lambda>a. find_elem a (atom ''name'') \<noteq> None) (findall entry (atom ''author''))"

definition well_formed_feed :: "element \<Rightarrow> bool" where
  "well_formed_feed root_elem = list_all well_formed_entry (findall root_elem (atom ''entry''))"

section \<open>template.py\<close>

text \<open>\<open>s.split(sep)\<close> for a separator of one character.\<close>

fun split :: "nat \<Rightarrow> pystr \<Rightarrow> pystr list" where
  "split sep [] = [[]]"
| "split sep (c # cs) =
     (if c = sep then [] # split sep cs
      else (case split sep cs of
              [] \<Rightarrow> [[c]]
            | seg # segs \<Rightarrow> (c # seg) # segs))"

text \<open>\<open>xs[-1]\<close> on a list.\<close>

definition last_item :: "'a list \<Rightarrow> 'a outcome" where
  "last_item xs = (case rev xs of [] \<Rightarrow> Raises IndexError | x # _ \<Rightarrow> Returns x)"

text \<open>\<open>paper.get("arxiv_id", "").split('/')[-1]\<close>; only a string has \<open>split\<close>.\<close>

definition arxiv_stem :: "paper \<Rightarrow> pystr outcome" where
  "arxiv_stem paper =
     (case (case map_of paper ''arxiv_id'' of None \<Rightarrow> PStr [] | Some v \<Rightarrow> v) of
        PStr s \<Rightarrow> last_item (split 47 s)
      | _ \<Rightarrow> Raises AttributeError)"

definition pdf_url :: "pystr \<Rightarrow> pystr" where
  "pdf_url arxiv_id = lit ''http://arxiv.org/pdf/'' @ arxiv_id @ lit ''.pdf''"

definition pdf_file :: "pystr \<Rightarrow> pystr" where
  "pdf_file arxiv_id = lit ''downloaded_pdfs/'' @ arxiv_id @ lit ''.pdf''"

text \<open>What follows the GET for one paper: the two branches of \<open>if response.status_code == 200\<close>.\<close>

definition after_response :: "pystr \<Rightarrow> nat \<Rightarrow> char list \<Rightarrow> event list" where
  "after_response arxiv_id status body =
     (if status = 200
      then [FileWrite (pdf_file arxiv_id) (Bytes body),
            StSuccess (lit ''Downloaded: '' @ arxiv_id @ lit ''.pdf'')]
      else [StError (lit ''Failed to download: '' @ arxiv_id @ lit ''.pdf'')])"

text \<open>
  The loop \<open>for paper in papers\<close>; \<open>n\<close> counts the requests already made. Nothing in the
  function catches an exception.
\<close>

fun download_loop :: "http \<Rightarrow> nat \<Rightarrow> paper list \<Rightarrow> unit outcome \<times> event list" where
  "download_loop http_get n [] = (Returns (), [])"
| "download_loop http_get n (paper # rest) =
     (case arxiv_stem paper of
        Raises e \<Rightarrow> (Raises e, [])
      | Returns arxiv_id \<Rightarrow>
          (case http_get n (pdf_url arxiv_id) [] of
             RequestError \<Rightarrow> (Raises RequestException, [HttpGet (pdf_url arxiv_id) []])
           | Response status body \<Rightarrow>
               (let later = download_loop http_get (Suc n) rest
                in (fst later,
                    HttpGet (pdf_url arxiv_id) [] # after_response arxiv_id status body @ snd later))))"

definition download_pdfs :: "http \<Rightarrow> paper list \<Rightarrow> unit outcome \<times> event list" where
  "download_pdfs http_get papers =
     (let looped = download_loop http_get 0 papers
      in (fst looped, Mkdir (lit ''downloaded_pdfs'') # snd looped))"

text \<open>
  One paper in the words of the specification: its identifier is a string (or the key is
  missing, which counts as the empty string); the filename stem is the part of the identifier
  after its last slash; the events for it are one GET, then the file and a success message on
  status 200, or a failure message on any other status.
\<close>

definition has_string_id :: "paper \<Rightarrow> bool" where
  "has_string_id paper =
     (case map_of paper ''arxiv_id'' of None \<Rightarrow> True | Some (PStr s) \<Rightarrow> True | Some v \<Rightarrow> False)"

definition arxiv_id_of :: "paper \<Rightarrow> pystr" where
  "arxiv_id_of paper = (case map_of paper ''arxiv_id'' of Some (PStr s) \<Rightarrow> s | _ \<Rightarrow> [])"

definition stem_of :: "paper \<Rightarrow> pystr" where
  "stem_of paper = rev (takeWhile (\<lambda>c. c \<noteq> 47) (rev (arxiv_id_of paper)))"

definition paper_events :: "http \<Rightarrow> nat \<Rightarrow> paper \<Rightarrow> event list" where
  "paper_events http_get i paper =
     HttpGet (lit ''http://arxiv.org/pdf/'' @ stem_of paper @ lit ''.pdf'') [] #
     (case http_get i (lit ''http://arxiv.org/pdf/'' @ stem_of paper @ lit ''.pdf'') [] of
        RequestError \<Rightarrow> []
      | Response status body \<Rightarrow>
          if status = 200
          then [FileWrite (lit ''downloaded_pdfs/'' @ stem_of paper @ lit ''.pdf'') (Bytes body),
                StSuccess (lit ''Downloaded: '' @ stem_of paper @ lit ''.pdf'')]
          else [StError (lit ''Failed to download: '' @ stem_of paper @ lit ''.pdf'')])"

text \<open>Reading the reports of a trace.\<close>

fun failure_reports :: "event list \<Rightarrow> pystr list" where
  "failure_reports [] = []"
| "failure_reports (StError msg # es) = msg # failure_reports es"
| "failure_reports (e # es) = failure_reports es"

section \<open>Concrete inputs\<close>

definition reply_with :: "pystr \<Rightarrow> api_reply" where
  "reply_with t = Reply 200 (GenResponse (Some [Candidate (Some (Content (Some [Part (Some t)])))]))"

definition page_one :: page_data where
  "page_one = \<lparr>page_num = 1, ptext = lit ''Visibility of system status''\<rparr>"

definition four_failures :: "page_data \<Rightarrow> nat \<Rightarrow> api_reply" where
  "four_failures page attempt = (if attempt < 4 then RequestFailed else reply_with (lit ''[]''))"




definition two_page_pdf :: "pystr \<Rightarrow> document option" where
  "two_page_pdf path = Some [replicate 100 97 @ [32, 10], replicate 101 97]"

definition long_pdf :: "pystr \<Rightarrow> document option" where
  "long_pdf path = Some [replicate 101 97, replicate 101 98]"

definition short_pdf :: "pystr \<Rightarrow> document option" where
  "short_pdf path = Some [lit ''Page 1'']"

text \<open>The JSON texts \<open>[{},{},{}]\<close> and \<open>{"a":1}\<close>, and \<open>json.loads\<close> on these two texts.\<close>

definition array_text :: pystr where
  "array_text = lit ''[{},{},{}]''"

definition object_text :: pystr where
  "object_text = lit ''{'' @ [34] @ lit ''a'' @ [34] @ lit '':1}''"

definition loads_sample :: "pystr \<Rightarrow> json option" where
  "loads_sample s =
     (if s = array_text then Some (JArr [JObj [], JObj [], JObj []])
      else if s = object_text then Some (JObj [(lit ''a'', JNum 1)])
      else None)"

definition array_then_object :: "page_data \<Rightarrow> nat \<Rightarrow> api_reply" where
  "array_then_object page attempt =
     (if page_num page = 1 then reply_with array_text else reply_with object_text)"

definition array_always :: "page_data \<Rightarrow> nat \<Rightarrow> api_reply" where
  "array_always page attempt = reply_with array_text"

text \<open>A feed of two entries: a complete one, and one without title, summary, id and category.\<close>

definition text_elem :: "pystr \<Rightarrow> pystr \<Rightarrow> element" where
  "text_elem t s = Element t [] (Some s) []"

definition author :: "pystr \<Rightarrow> element" where
  "author name = Element (atom ''author'') [] None [text_elem (atom ''name'') name]"

definition entry_full :: element where
  "entry_full =
     Element (atom ''entry'') [] None
       [text_elem (atom ''id'') (lit ''http://arxiv.org/abs/2401.00001v1''),
        text_elem (atom ''title'') (lit '' Agents ''),
        text_elem (atom ''summary'') (lit ''We study agents.''),
        author (lit ''Ada''),
        author (lit ''Bob''),
        Element (arxiv ''primary_category'') [(lit ''term'', lit ''cs.AI'')] None []]"

definition entry_bare :: element where
  "entry_bare =
     Element (atom ''entry'') [] None
       [author (lit ''Cy''),
        Element (atom ''author'') [] None [Element (atom ''name'') [] None []],
        author []]"

definition sample_feed :: element where
  "sample_feed = Element (atom ''feed'') [] None [text_elem (atom ''title'') (lit ''query''), entry_full, entry_bare]"

definition http_down :: http where
  "http_down n url params = RequestError"


definition http_ok :: http where
  "http_ok n url params = Response 200 ''<feed/>''"


definition parse_sample :: "char list \<Rightarrow> element option" where
  "parse_sample body = Some sample_feed"





definition paper_full :: paper where
  "paper_full =
     [(''title'', PStr (lit ''Agents'')),
      (''authors'', PList [lit ''Ada'', lit ''Bob'']),
      (''summary'', PStr (lit ''We study agents.'')),
      (''arxiv_id'', PStr (lit ''http://arxiv.org/abs/2401.00001v1'')),
      (''primary_category'', PStr (lit ''cs.AI''))]"

definition paper_bare :: paper where
  "paper_bare =
     [(''title'', PStr (lit ''N/A'')),
      (''authors'', PList [lit ''Cy'']),
      (''summary'', PStr (lit ''N/A'')),
      (''arxiv_id'', PStr (lit ''N/A'')),
      (''primary_category'', PStr (lit ''N/A''))]"

text \<open>A second paper, and a host that answers 404 to the first request and 200 afterwards.\<close>

definition paper_second :: paper where
  "paper_second =
     [(''title'', PStr (lit ''Planning'')),
      (''authors'', PList [lit ''Dee'']),
      (''summary'', PStr (lit ''We plan.'')),
      (''arxiv_id'', PStr (lit ''http://arxiv.org/abs/2401.00002v2'')),
      (''primary_category'', PStr (lit ''cs.CL''))]"

definition http_first_missing :: http where
  "http_first_missing n url params = (if n = 0 then Response 404 [] else Response 200 ''%PDF-1.7'')"

section \<open>Properties of the retry loop\<close>

lemma try_request_fails: "attempt_fails r \<Longrightarrow> try_request r = Returns None"
  by (auto simp: attempt_fails_def try_request_def split: api_reply.splits)

lemma try_request_succeeds: "attempt_succeeds r t \<Longrightarrow> try_request r = Returns (Some t)"
  by (auto simp: attempt_succeeds_def try_request_def split: api_reply.splits)

lemma range_5: "[0..<5] = [0, 1, 2, 3, 4::nat]"
  by (simp add: upt_rec)

lemma attempt_loop_never_empty: "fst (attempt_loop reply page m as) \<noteq> Returns (Some [])"
  by (induction as)
    (auto simp: try_request_def Let_def split: outcome.splits option.splits api_reply.splits if_splits)

lemma attempt_loop_events:
  "e \<in> set (snd (attempt_loop reply page m as)) \<Longrightarrow> e = HttpPost page \<or> (\<exists>d. e = Sleep d)"
  by (induction as) (auto simp: Let_def split: outcome.splits option.splits if_splits)

lemma call_events:
  "e \<in> set (snd (call_gemini_for_extraction api page m)) \<Longrightarrow> e = HttpPost page \<or> (\<exists>d. e = Sleep d)"
  unfolding call_gemini_for_extraction_def by (rule attempt_loop_events)

lemma pages_loop_events:
  "e \<in> set (snd (pages_loop api loads ps acc)) \<Longrightarrow>
     (\<exists>p \<in> set ps. e = HttpPost p) \<or> (\<exists>d. e = Sleep d)"
proof (induction ps arbitrary: acc)
  case Nil
  then show ?case by simp
next
  case (Cons p ps)
  show ?case
  proof (cases "fst (call_gemini_for_extraction api p 5)")
    case (Raises x)
    with Cons.prems show ?thesis by (auto dest: call_events)
  next
    case (Returns r)
    show ?thesis
    proof (cases "collect_page loads r acc")
      case (Raises x)
      with Returns Cons.prems show ?thesis by (auto dest: call_events)
    next
      case extended: (Returns ext)
      from Cons.prems Returns extended
      have "e \<in> set (snd (call_gemini_for_extraction api p 5)) \<or> e = Sleep (1 / 2) \<or>
            e \<in> set (snd (pages_loop api loads ps ext))"
        by (auto simp: Let_def)
      then show ?thesis using Cons.IH[of ext] by (auto dest: call_events)
    qed
  qed
qed


lemma four_failures_fail: "\<forall>a<4. attempt_fails (four_failures page_one a)"
  by (simp add: attempt_fails_def four_failures_def)

lemma four_failures_succeed: "attempt_succeeds (four_failures page_one 4) (lit ''[]'')"
  by (simp add: attempt_succeeds_def four_failures_def reply_with_def extract_json_text_def
      first_item_def lit_def)


section \<open>The claims about the retry loop\<close>

text \<open>
  C1, as stated, fails. The endpoint \<open>four_failures\<close> fails on attempts 0 to 3 and answers on
  attempt 4. The waits before the retries are then not 0, 2, 4 and 8 seconds, and their sum is
  not 14 seconds: the first wait is \<open>2 ** 0\<close>, which is one second.
\<close>

theorem backoff_waits_counterexample:
  "attempt_fails (four_failures page_one 0) \<and> attempt_fails (four_failures page_one 1) \<and>
   attempt_fails (four_failures page_one 2) \<and> attempt_fails (four_failures page_one 3) \<and>
   attempt_succeeds (four_failures page_one 4) (lit ''[]'') \<and>
   waits (snd (call_gemini_for_extraction four_failures page_one 5)) \<noteq> [0, 2, 4, 8] \<and>
   total_wait (snd (call_gemini_for_extraction four_failures page_one 5)) \<noteq> 14"
  by (simp add: attempt_fails_def attempt_succeeds_def four_failures_def reply_with_def
      extract_json_text_def first_item_def lit_def call_gemini_for_extraction_def range_5
      try_request_def Let_def total_wait_def)

text \<open>
  C1, amended: when \<open>call_gemini_for_extraction\<close> fails on each of its first four attempts and
  succeeds on the fifth, the wait after the failed attempt \<open>a\<close> is \<open>2 ^ a\<close> seconds, namely 1, 2,
  4 and 8 seconds for the attempts 0 to 3, so the total wait before the successful result is
  returned is 15 seconds; five requests are sent and the text of the fifth answer is returned.
\<close>

theorem backoff_waits_before_fifth_attempt:
  assumes "\<forall>a<4. attempt_fails (api page a)"
    and "attempt_succeeds (api page 4) t"
  shows "call_gemini_for_extraction api page 5 =
           (Returns (Some t),
            [HttpPost page, Sleep (2 ^ 0), HttpPost page, Sleep (2 ^ 1), HttpPost page,
             Sleep (2 ^ 2), HttpPost page, Sleep (2 ^ 3), HttpPost page]) \<and>
         waits (snd (call_gemini_for_extraction api page 5)) = [1, 2, 4, 8] \<and>
         total_wait (snd (call_gemini_for_extraction api page 5)) = 15 \<and>
         posts (snd (call_gemini_for_extraction api page 5)) = 5"
proof -
  have "try_request (api page a) = Returns None" if "a < 4" for a
    using assms(1) that by (simp add: try_request_fails)
  moreover have "try_request (api page 4) = Returns (Some t)"
    using assms(2) by (rule try_request_succeeds)
  ultimately show ?thesis
    by (simp add: call_gemini_for_extraction_def range_5 Let_def total_wait_def)
qed

theorem backoff_waits_before_fifth_attempt_witness:
  "call_gemini_for_extraction four_failures page_one 5 =
     (Returns (Some (lit ''[]'')),
      [HttpPost page_one, Sleep (2 ^ 0), HttpPost page_one, Sleep (2 ^ 1), HttpPost page_one,
       Sleep (2 ^ 2), HttpPost page_one, Sleep (2 ^ 3), HttpPost page_one]) \<and>
   waits (snd (call_gemini_for_extraction four_failures page_one 5)) = [1, 2, 4, 8] \<and>
   total_wait (snd (call_gemini_for_extraction four_failures page_one 5)) = 15 \<and>
   posts (snd (call_gemini_for_extraction four_failures page_one 5)) = 5"
  using four_failures_fail four_failures_succeed
  by (rule backoff_waits_before_fifth_attempt)




text \<open>
  C10: \<open>call_gemini_for_extraction\<close> never returns an empty string. Whatever the endpoint
  answers and whatever the number of attempts, a returned value is \<open>None\<close> or a non-empty
  string (the third case is an \<open>IndexError\<close> that leaves the function, where nothing is
  returned): an answer whose text is missing or empty counts as a failed attempt.
\<close>

theorem call_gemini_never_returns_empty_string:
  "fst (call_gemini_for_extraction api page max_retries) \<noteq> Returns (Some []) \<and>
   (fst (call_gemini_for_extraction api page max_retries) = Returns None \<or>
    (\<exists>t. t \<noteq> [] \<and> fst (call_gemini_for_extraction api page max_retries) = Returns (Some t)) \<or>
    (\<exists>e. fst (call_gemini_for_extraction api page max_retries) = Raises e)) \<and>
   try_request (Reply status (GenResponse (Some [Candidate (Some (Content (Some [Part None])))])))
     = Returns None \<and>
   try_request (reply_with []) = Returns None"
proof -
  let ?r = "fst (call_gemini_for_extraction api page max_retries)"
  have never: "?r \<noteq> Returns (Some [])"
    by (simp add: call_gemini_for_extraction_def attempt_loop_never_empty)
  have "?r = Returns None \<or> (\<exists>t. t \<noteq> [] \<and> ?r = Returns (Some t)) \<or> (\<exists>e. ?r = Raises e)"
  proof (cases ?r)
    case (Returns v)
    with never show ?thesis by (cases v) auto
  next
    case (Raises e)
    then show ?thesis by simp
  qed
  with never show ?thesis
    by (simp add: try_request_def reply_with_def extract_json_text_def first_item_def)
qed

section \<open>The claim about the page texts\<close>

lemma page_loop_closed:
  "page_loop document ns page_texts =
     page_texts @ map (\<lambda>n. \<lparr>page_num = int n + 1, ptext = document ! n\<rparr>)
       (filter (\<lambda>n. 100 < length (strip (document ! n))) ns)"
  by (induction ns arbitrary: page_texts) (simp_all add: Let_def)

lemma strip_padded:
  assumes "\<not> py_isspace c" and "list_all py_isspace ws"
  shows "strip (replicate (Suc n) c @ ws) = replicate (Suc n) c"
proof -
  have "\<And>x. x \<in> set (rev ws) \<Longrightarrow> py_isspace x"
    using assms(2) by (simp add: list_all_iff)
  then have "dropWhile py_isspace (rev ws @ c # replicate n c) =
      dropWhile py_isspace (c # replicate n c)"
    by (rule dropWhile_append2)
  then have "dropWhile py_isspace (rev ws @ c # replicate n c) = c # replicate n c"
    using assms(1) by simp
  moreover have "rev (replicate (Suc n) c @ ws) = rev ws @ c # replicate n c"
    by (simp add: replicate_append_same)
  ultimately show ?thesis
    using assms(1) by (simp add: strip_def replicate_append_same)
qed

lemma strip_100_padded: "strip (replicate 100 97 @ [32, 10]) = replicate 100 97"
  using strip_padded[of 97 "[32, 10]" 99] by (simp add: py_isspace_def)

lemma strip_101: "strip (replicate 101 97) = replicate 101 97"
  using strip_padded[of 97 "[]" 100] by (simp add: py_isspace_def)

lemma strip_101_b: "strip (replicate 101 98) = replicate 101 98"
  using strip_padded[of 98 "[]" 100] by (simp add: py_isspace_def)

text \<open>
  C3: for every PDF that opens, \<open>extract_text_from_pdf\<close> returns, in page order, exactly the
  pages whose stripped text is longer than 100 characters, each with its text and its page
  number counted from 1; a page whose stripped text has at most 100 characters is not in the
  result.
\<close>

theorem pages_with_more_than_100_characters:
  assumes "fitz_open pdf_path = Some document"
  shows "extract_text_from_pdf fitz_open pdf_path =
           map (\<lambda>n. \<lparr>page_num = int n + 1, ptext = document ! n\<rparr>)
             (filter (\<lambda>n. 100 < length (strip (document ! n))) [0..<length document]) \<and>
         (\<forall>n<length document.
            (length (strip (document ! n)) \<le> 100 \<longrightarrow>
               (\<forall>p \<in> set (extract_text_from_pdf fitz_open pdf_path). page_num p \<noteq> int n + 1)) \<and>
            (100 < length (strip (document ! n)) \<longrightarrow>
               \<lparr>page_num = int n + 1, ptext = document ! n\<rparr>
                 \<in> set (extract_text_from_pdf fitz_open pdf_path)))"
  using assms by (auto simp: extract_text_from_pdf_def page_loop_closed)

theorem pages_with_more_than_100_characters_witness:
  "length (strip (replicate 100 97 @ [32, 10])) = 100 \<and>
   length (strip (replicate 101 97)) = 101 \<and>
   extract_text_from_pdf two_page_pdf (lit ''Gesture.pdf'') =
     [\<lparr>page_num = 2, ptext = replicate 101 97\<rparr>]"
proof -
  have "two_page_pdf (lit ''Gesture.pdf'') = Some [replicate 100 97 @ [32, 10], replicate 101 97]"
    by (simp add: two_page_pdf_def)
  with pages_with_more_than_100_characters
         [of two_page_pdf "lit ''Gesture.pdf''" "[replicate 100 97 @ [32, 10], replicate 101 97]"]
  show ?thesis
    by (simp add: strip_100_padded strip_101 upt_rec)
qed

section \<open>The claims about the output file\<close>

lemma try_request_reply_with: "t \<noteq> [] \<Longrightarrow> try_request (reply_with t) = Returns (Some t)"
  by (simp add: try_request_def reply_with_def extract_json_text_def first_item_def)

lemma call_first_answer:
  "try_request (api page 0) = Returns (Some t) \<Longrightarrow>
   call_gemini_for_extraction api page 5 = (Returns (Some t), [HttpPost page])"
  by (simp add: call_gemini_for_extraction_def range_5)

lemma long_pdf_pages:
  "extract_text_from_pdf long_pdf path =
     [\<lparr>page_num = 1, ptext = replicate 101 97\<rparr>, \<lparr>page_num = 2, ptext = replicate 101 98\<rparr>]"
  by (simp add: extract_text_from_pdf_def long_pdf_def page_loop_closed upt_rec strip_101 strip_101_b)

lemma short_pdf_pages: "extract_text_from_pdf short_pdf path = []"
  by (simp add: extract_text_from_pdf_def short_pdf_def page_loop_closed upt_rec strip_def lit_def py_isspace_def)

lemma texts_differ: "array_text \<noteq> []" "object_text \<noteq> []" "object_text \<noteq> array_text"
  by (simp_all add: array_text_def object_text_def lit_def)

lemma call_array_then_object_1:
  "call_gemini_for_extraction array_then_object \<lparr>page_num = 1, ptext = t\<rparr> 5 =
     (Returns (Some array_text), [HttpPost \<lparr>page_num = 1, ptext = t\<rparr>])"
  by (rule call_first_answer) (simp add: array_then_object_def try_request_reply_with texts_differ)

lemma call_array_then_object_2:
  "call_gemini_for_extraction array_then_object \<lparr>page_num = 2, ptext = t\<rparr> 5 =
     (Returns (Some object_text), [HttpPost \<lparr>page_num = 2, ptext = t\<rparr>])"
  by (rule call_first_answer) (simp add: array_then_object_def try_request_reply_with texts_differ)

text \<open>
  C4, as stated, fails. The PDF has two pages; the answer for page 1 parses as a list of three
  objects, the answer for page 2 parses as the object \<open>{"a":1}\<close>. \<open>extractPDF\<close> returns, and the
  file holds an array of four items (\<open>extend\<close> appends the key of the object), although the
  pages whose answer parsed as a list hold three rules.
\<close>

theorem output_length_counterexample:
  "fst (extractPDF (lit ''key'') long_pdf loads_sample array_then_object (lit ''Gesture.pdf'')) = Returns () \<and>
   writes (snd (extractPDF (lit ''key'') long_pdf loads_sample array_then_object (lit ''Gesture.pdf''))) =
     [(output_filename, JsonDump (JArr [JObj [], JObj [], JObj [], JStr (lit ''a'')]))] \<and>
   sum_list (map (\<lambda>p. length (page_rules array_then_object loads_sample p))
     (extract_text_from_pdf long_pdf (lit ''Gesture.pdf''))) = 3 \<and>
   length [JObj [], JObj [], JObj [], JStr (lit ''a'')] \<noteq>
     sum_list (map (\<lambda>p. length (page_rules array_then_object loads_sample p))
       (extract_text_from_pdf long_pdf (lit ''Gesture.pdf'')))"
  by (simp add: extractPDF_def long_pdf_pages call_array_then_object_1 call_array_then_object_2
      collect_page_def loads_sample_def texts_differ page_rules_def parsed_answer_def Let_def lit_def)

text \<open>
  C5, as stated, fails. The PDF has one page of six characters, so no page has more than 100
  characters: \<open>extractPDF\<close> returns at its second guard and the file is not written at all.
\<close>

theorem output_written_counterexample:
  "extractPDF (lit ''key'') short_pdf loads_sample array_always (lit ''Gesture.pdf'') = (Returns (), []) \<and>
   length (writes (snd (extractPDF (lit ''key'') short_pdf loads_sample array_always (lit ''Gesture.pdf'')))) \<noteq> 1"
  by (simp add: extractPDF_def short_pdf_pages lit_def)

lemma attempt_loop_posts_first:
  "as \<noteq> [] \<Longrightarrow> HttpPost page \<in> set (snd (attempt_loop reply page m as))"
  by (cases as) (auto simp: Let_def split: outcome.splits option.splits)

lemma call_posts: "HttpPost page \<in> set (snd (call_gemini_for_extraction api page 5))"
  unfolding call_gemini_for_extraction_def by (rule attempt_loop_posts_first) simp

lemma writes_nil:
  "(\<And>e. e \<in> set tr \<Longrightarrow> (\<exists>p. e = HttpPost p) \<or> (\<exists>d. e = Sleep d)) \<Longrightarrow> writes tr = []"
proof (induction tr)
  case Nil
  then show ?case by simp
next
  case (Cons e tr)
  from Cons.prems[of e] have "(\<exists>p. e = HttpPost p) \<or> (\<exists>d. e = Sleep d)" by simp
  moreover have "writes tr = []" using Cons by simp
  ultimately show ?case by auto
qed

lemma pages_loop_no_writes: "writes (snd (pages_loop api loads ps acc)) = []"
  by (rule writes_nil) (auto dest: pages_loop_events)

lemma pages_loop_posts_all:
  "fst (pages_loop api loads ps acc) = Returns all \<Longrightarrow> p \<in> set ps \<Longrightarrow>
   HttpPost p \<in> set (snd (pages_loop api loads ps acc))"
proof (induction ps arbitrary: acc)
  case Nil
  then show ?case by simp
next
  case (Cons q ps)
  from Cons.prems(1) obtain r where r: "fst (call_gemini_for_extraction api q 5) = Returns r"
    by (cases "fst (call_gemini_for_extraction api q 5)") (auto simp: Let_def)
  from Cons.prems(1) r obtain ext where ext: "collect_page loads r acc = Returns ext"
    by (cases "collect_page loads r acc") (auto simp: Let_def)
  have tr: "snd (pages_loop api loads (q # ps) acc) =
      snd (call_gemini_for_extraction api q 5) @ Sleep (1 / 2) # snd (pages_loop api loads ps ext)"
    using r ext by (simp add: Let_def)
  have out: "fst (pages_loop api loads ps ext) = Returns all"
    using Cons.prems(1) r ext by (simp add: Let_def)
  show ?case
  proof (cases "p = q")
    case True
    then show ?thesis unfolding tr using call_posts[of q api] by simp
  next
    case False
    with Cons.prems(2) have "p \<in> set ps" by simp
    from Cons.IH[OF out this] show ?thesis unfolding tr by simp
  qed
qed

lemma call_never_empty: "fst (call_gemini_for_extraction api page m) \<noteq> Returns (Some [])"
  by (simp add: call_gemini_for_extraction_def attempt_loop_never_empty)

lemma collect_array:
  assumes "fst (call_gemini_for_extraction api p 5) = Returns r"
    and "\<forall>v. parsed_answer api loads p = Some v \<longrightarrow> is_array v"
  shows "collect_page loads r acc = Returns (acc @ page_rules api loads p)"
proof (cases r)
  case None
  with assms(1) show ?thesis
    by (simp add: collect_page_def page_rules_def parsed_answer_def)
next
  case (Some s)
  with assms(1) call_never_empty[of api p 5] have s: "s \<noteq> []" by auto
  have pa: "parsed_answer api loads p = loads s"
    using assms(1) Some by (simp add: parsed_answer_def)
  show ?thesis
  proof (cases "loads s")
    case None
    with Some s pa show ?thesis by (simp add: collect_page_def page_rules_def)
  next
    case (Some v)
    with assms(2) pa have "is_array v" by simp
    then obtain xs where "v = JArr xs" by (cases v) auto
    with Some \<open>r = Some s\<close> s pa show ?thesis by (simp add: collect_page_def page_rules_def)
  qed
qed

lemma pages_loop_arrays:
  assumes "\<forall>p \<in> set ps. \<forall>v. parsed_answer api loads p = Some v \<longrightarrow> is_array v"
    and "fst (pages_loop api loads ps acc) = Returns all"
  shows "all = acc @ concat (map (page_rules api loads) ps)"
  using assms
proof (induction ps arbitrary: acc)
  case Nil
  then show ?case by simp
next
  case (Cons q ps)
  from Cons.prems(2) obtain r where r: "fst (call_gemini_for_extraction api q 5) = Returns r"
    by (cases "fst (call_gemini_for_extraction api q 5)") (auto simp: Let_def)
  have ext: "collect_page loads r acc = Returns (acc @ page_rules api loads q)"
    using r Cons.prems(1) by (intro collect_array) auto
  have "fst (pages_loop api loads ps (acc @ page_rules api loads q)) = Returns all"
    using Cons.prems(2) r ext by (simp add: Let_def)
  moreover have "\<forall>p \<in> set ps. \<forall>v. parsed_answer api loads p = Some v \<longrightarrow> is_array v"
    using Cons.prems(1) by simp
  ultimately have "all = (acc @ page_rules api loads q) @ concat (map (page_rules api loads) ps)"
    by (rule Cons.IH[rotated])
  then show ?case by simp
qed

lemma writes_append: "writes (xs @ ys) = writes xs @ writes ys"
  by (induction xs rule: writes.induct) simp_all

lemma files_after_append: "files_after fs (xs @ ys) = files_after (files_after fs xs) ys"
proof (induction xs arbitrary: fs)
  case Nil
  show ?case by simp
next
  case (Cons e xs)
  show ?case by (cases e) (simp_all only: append_Cons files_after.simps Cons.IH)
qed

lemma files_after_no_writes: "writes tr = [] \<Longrightarrow> files_after fs tr = fs"
proof (induction tr arbitrary: fs)
  case Nil
  show ?case by simp
next
  case (Cons e tr)
  then show ?case by (cases e) (simp_all del: fun_upd_apply)
qed

text \<open>
  C4, amended: when \<open>extractPDF\<close> passes its two guards and returns, and every answer that parses
  as JSON parses as a list, the output file is written with a JSON array that is the
  concatenation, in page order and without removing duplicates, of the lists of the pages
  whose extraction call returned text that parsed as a list; its length is the sum of the
  per-page counts.
\<close>

theorem output_concatenates_page_rules:
  assumes "API_KEY \<noteq> []"
    and "extract_text_from_pdf fitz_open pdf_file_path \<noteq> []"
    and "fst (extractPDF API_KEY fitz_open loads api pdf_file_path) = Returns ()"
    and "\<forall>p \<in> set (extract_text_from_pdf fitz_open pdf_file_path).
           \<forall>v. parsed_answer api loads p = Some v \<longrightarrow> is_array v"
  shows "\<exists>rules.
           writes (snd (extractPDF API_KEY fitz_open loads api pdf_file_path)) =
             [(output_filename, JsonDump (JArr rules))] \<and>
           rules = concat (map (page_rules api loads) (extract_text_from_pdf fitz_open pdf_file_path)) \<and>
           length rules =
             sum_list (map (\<lambda>p. length (page_rules api loads p))
               (extract_text_from_pdf fitz_open pdf_file_path))"
proof -
  let ?pages = "extract_text_from_pdf fitz_open pdf_file_path"
  from assms(1,2,3) obtain all where all: "fst (pages_loop api loads ?pages []) = Returns all"
    by (cases "fst (pages_loop api loads ?pages [])") (auto simp: extractPDF_def Let_def)
  have "all = [] @ concat (map (page_rules api loads) ?pages)"
    using assms(4) all by (rule pages_loop_arrays)
  then have rules: "all = concat (map (page_rules api loads) ?pages)" by simp
  have "writes (snd (extractPDF API_KEY fitz_open loads api pdf_file_path)) =
      [(output_filename, JsonDump (JArr all))]"
    using assms(1,2) all by (simp add: extractPDF_def Let_def writes_append pages_loop_no_writes)
  moreover have "length all = sum_list (map (\<lambda>p. length (page_rules api loads p)) ?pages)"
    unfolding rules by (simp add: length_concat comp_def)
  ultimately show ?thesis using rules by blast
qed

text \<open>
  C5, amended: \<open>extractPDF\<close> writes \<open>extracted_heuristics.json\<close> at most once per invocation.
  When the API key is empty or no page has more than 100 stripped characters it returns
  without any action, so the file is not written. When both guards pass and the function
  returns, the file is written exactly once. Whenever it is written, the write is the last
  action, a request has been sent for every page before it, the content is a JSON array, and
  the file afterwards holds that array whatever it held before.
\<close>

theorem output_written_once_at_the_end:
  "(API_KEY = [] \<or> extract_text_from_pdf fitz_open pdf_file_path = [] \<longrightarrow>
      snd (extractPDF API_KEY fitz_open loads api pdf_file_path) = []) \<and>
   (API_KEY \<noteq> [] \<and> extract_text_from_pdf fitz_open pdf_file_path \<noteq> [] \<and>
    fst (extractPDF API_KEY fitz_open loads api pdf_file_path) = Returns () \<longrightarrow>
      length (writes (snd (extractPDF API_KEY fitz_open loads api pdf_file_path))) = 1) \<and>
   length (writes (snd (extractPDF API_KEY fitz_open loads api pdf_file_path))) \<le> 1 \<and>
   (writes (snd (extractPDF API_KEY fitz_open loads api pdf_file_path)) \<noteq> [] \<longrightarrow>
      (\<exists>before rules.
         snd (extractPDF API_KEY fitz_open loads api pdf_file_path) =
           before @ [FileWrite output_filename (JsonDump (JArr rules))] \<and>
         writes before = [] \<and>
         (\<forall>p \<in> set (extract_text_from_pdf fitz_open pdf_file_path). HttpPost p \<in> set before) \<and>
         (\<forall>fs. files_after fs (snd (extractPDF API_KEY fitz_open loads api pdf_file_path)) =
                 fs(output_filename \<mapsto> JsonDump (JArr rules)))))"
proof -
  let ?pages = "extract_text_from_pdf fitz_open pdf_file_path"
  let ?run = "extractPDF API_KEY fitz_open loads api pdf_file_path"
  let ?loop = "pages_loop api loads ?pages []"
  show ?thesis
  proof (cases "API_KEY = [] \<or> ?pages = []")
    case True
    then have "?run = (Returns (), [])" by (auto simp: extractPDF_def Let_def)
    with True show ?thesis by simp
  next
    case guards: False
    show ?thesis
    proof (cases "fst ?loop")
      case (Raises e)
      with guards have "?run = (Raises e, snd ?loop)" by (simp add: extractPDF_def Let_def)
      with guards show ?thesis by (simp add: pages_loop_no_writes)
    next
      case (Returns all)
      with guards have tr: "snd ?run = snd ?loop @ [FileWrite output_filename (JsonDump (JArr all))]"
        by (simp add: extractPDF_def Let_def)
      have posts: "\<forall>p \<in> set ?pages. HttpPost p \<in> set (snd ?loop)"
        using Returns by (auto intro: pages_loop_posts_all)
      have fs: "\<forall>fs. files_after fs (snd ?run) = fs(output_filename \<mapsto> JsonDump (JArr all))"
        unfolding tr by (simp add: files_after_append files_after_no_writes pages_loop_no_writes)
      have w: "writes (snd ?run) = [(output_filename, JsonDump (JArr all))]"
        unfolding tr by (simp add: writes_append pages_loop_no_writes)
      have "\<exists>before rules. snd ?run = before @ [FileWrite output_filename (JsonDump (JArr rules))] \<and>
         writes before = [] \<and> (\<forall>p \<in> set ?pages. HttpPost p \<in> set before) \<and>
         (\<forall>fs. files_after fs (snd ?run) = fs(output_filename \<mapsto> JsonDump (JArr rules)))"
        using tr posts fs pages_loop_no_writes[of api loads ?pages "[]"] by blast
      with guards w show ?thesis by simp
    qed
  qed
qed

lemma call_array_always:
  "call_gemini_for_extraction array_always page 5 = (Returns (Some array_text), [HttpPost page])"
  by (rule call_first_answer) (simp add: array_always_def try_request_reply_with texts_differ)

lemma page_rules_array_always:
  "page_rules array_always loads_sample page = [JObj [], JObj [], JObj []]"
  by (simp add: page_rules_def parsed_answer_def call_array_always loads_sample_def)

lemma run_array_always:
  "fst (extractPDF (lit ''key'') long_pdf loads_sample array_always (lit ''Gesture.pdf'')) = Returns ()"
  by (simp add: extractPDF_def long_pdf_pages call_array_always collect_page_def loads_sample_def
      texts_differ Let_def lit_def)

theorem output_concatenates_page_rules_witness:
  "writes (snd (extractPDF (lit ''key'') long_pdf loads_sample array_always (lit ''Gesture.pdf''))) =
     [(output_filename, JsonDump (JArr [JObj [], JObj [], JObj [], JObj [], JObj [], JObj []]))] \<and>
   sum_list (map (\<lambda>p. length (page_rules array_always loads_sample p))
     (extract_text_from_pdf long_pdf (lit ''Gesture.pdf''))) = 6"
proof -
  have key: "lit ''key'' \<noteq> []"
    by (simp add: lit_def)
  have pages: "extract_text_from_pdf long_pdf (lit ''Gesture.pdf'') \<noteq> []"
    by (simp add: long_pdf_pages)
  have arrays: "\<forall>p \<in> set (extract_text_from_pdf long_pdf (lit ''Gesture.pdf'')).
      \<forall>v. parsed_answer array_always loads_sample p = Some v \<longrightarrow> is_array v"
    by (auto simp: parsed_answer_def call_array_always loads_sample_def)
  from output_concatenates_page_rules [of "lit ''key''" long_pdf "lit ''Gesture.pdf''" loads_sample array_always]
    key pages run_array_always arrays
  obtain rules where
    "writes (snd (extractPDF (lit ''key'') long_pdf loads_sample array_always (lit ''Gesture.pdf''))) =
       [(output_filename, JsonDump (JArr rules))]"
    and "rules = concat (map (page_rules array_always loads_sample)
       (extract_text_from_pdf long_pdf (lit ''Gesture.pdf'')))"
    by blast
  then show ?thesis
    by (simp add: long_pdf_pages page_rules_array_always)
qed

theorem output_written_once_at_the_end_witness:
  "snd (extractPDF (lit ''key'') short_pdf loads_sample array_always (lit ''Gesture.pdf'')) = [] \<and>
   length (writes (snd (extractPDF (lit ''key'') long_pdf loads_sample array_always
     (lit ''Gesture.pdf'')))) = 1 \<and>
   (\<exists>before rules.
      snd (extractPDF (lit ''key'') long_pdf loads_sample array_always (lit ''Gesture.pdf'')) =
        before @ [FileWrite output_filename (JsonDump (JArr rules))] \<and>
      writes before = [] \<and>
      (\<forall>p \<in> set (extract_text_from_pdf long_pdf (lit ''Gesture.pdf'')). HttpPost p \<in> set before) \<and>
      (\<forall>fs. files_after fs
               (snd (extractPDF (lit ''key'') long_pdf loads_sample array_always (lit ''Gesture.pdf''))) =
             fs(output_filename \<mapsto> JsonDump (JArr rules))))"
proof -
  have key: "lit ''key'' \<noteq> []"
    by (simp add: lit_def)
  have pages: "extract_text_from_pdf long_pdf (lit ''Gesture.pdf'') \<noteq> []"
    by (simp add: long_pdf_pages)
  have empty: "snd (extractPDF (lit ''key'') short_pdf loads_sample array_always (lit ''Gesture.pdf'')) = []"
    using output_written_once_at_the_end [of "lit ''key''" short_pdf "lit ''Gesture.pdf''" loads_sample array_always]
    by (simp add: short_pdf_pages)
  note long = output_written_once_at_the_end [of "lit ''key''" long_pdf "lit ''Gesture.pdf''" loads_sample array_always]
  from long key pages run_array_always
  have once: "length (writes (snd (extractPDF (lit ''key'') long_pdf loads_sample array_always
      (lit ''Gesture.pdf'')))) = 1"
    by blast
  then have "writes (snd (extractPDF (lit ''key'') long_pdf loads_sample array_always
      (lit ''Gesture.pdf''))) \<noteq> []"
    by auto
  with long empty once show ?thesis
    by blast
qed

section \<open>The claims about the search\<close>



lemma authors_loop_eq:
  "authors_loop as acc =
     (if list_all (\<lambda>a. find_elem a (atom ''name'') \<noteq> None) as
      then Returns (acc @ concat (map author_name as))
      else Raises AttributeError)"
  by (induction as arbitrary: acc) (auto simp: author_name_def split: option.splits)

lemma authors_loop_closed:
  "authors_loop as acc = Returns r \<Longrightarrow> r = acc @ concat (map author_name as)"
  by (simp add: authors_loop_eq split: if_splits)

lemma authors_loop_total:
  "list_all (\<lambda>a. find_elem a (atom ''name'') \<noteq> None) as \<Longrightarrow> \<exists>r. authors_loop as acc = Returns r"
  by (simp add: authors_loop_eq)

lemma author_name_nonempty: "[] \<notin> set (author_name a)"
  by (simp add: author_name_def split: option.splits)

lemma author_names_nonempty: "[] \<notin> set (author_names e)"
  by (auto simp: author_names_def author_name_nonempty)

lemma stripped_text_total: "has_text e path \<Longrightarrow> \<exists>s. stripped_text e path = Returns s"
  by (auto simp: has_text_def stripped_text_def split: option.splits)

lemma well_formed_parses: "well_formed_entry e \<Longrightarrow> \<exists>p. parse_entry e = Returns p"
proof -
  assume wf: "well_formed_entry e"
  then obtain t where t: "stripped_text e (atom ''title'') = Returns t"
    using stripped_text_total by (auto simp: well_formed_entry_def)
  from wf obtain s where s: "stripped_text e (atom ''summary'') = Returns s"
    using stripped_text_total by (auto simp: well_formed_entry_def)
  from wf obtain r where r: "authors_loop (findall e (atom ''author'')) [] = Returns r"
    using authors_loop_total by (auto simp: well_formed_entry_def)
  show ?thesis by (simp add: parse_entry_def t s r Let_def)
qed

lemma parse_entry_fields:
  assumes "parse_entry e = Returns p"
  shows "map fst p = [''title'', ''authors'', ''summary'', ''arxiv_id'', ''primary_category'']"
    and "find_elem e (atom ''title'') = None \<longrightarrow> map_of p ''title'' = Some (PStr (lit ''N/A''))"
    and "find_elem e (atom ''summary'') = None \<longrightarrow> map_of p ''summary'' = Some (PStr (lit ''N/A''))"
    and "find_elem e (atom ''id'') = None \<longrightarrow> map_of p ''arxiv_id'' = Some (PStr (lit ''N/A''))"
    and "find_elem e (arxiv ''primary_category'') = None \<longrightarrow>
           map_of p ''primary_category'' = Some (PStr (lit ''N/A''))"
    and "map_of p ''authors'' = Some (PList (author_names e))"
proof -
  from assms obtain t s r where
    t: "stripped_text e (atom ''title'') = Returns t" and
    s: "stripped_text e (atom ''summary'') = Returns s" and
    r: "authors_loop (findall e (atom ''author'')) [] = Returns r"
    by (auto simp: parse_entry_def split: outcome.splits)
  from r have r': "r = author_names e"
    by (auto simp: author_names_def dest: authors_loop_closed)
  note p = assms[unfolded parse_entry_def t s r outcome.case Let_def, simplified]
  show "map fst p = [''title'', ''authors'', ''summary'', ''arxiv_id'', ''primary_category'']"
    using p by auto
  show "find_elem e (atom ''title'') = None \<longrightarrow> map_of p ''title'' = Some (PStr (lit ''N/A''))"
    using p t by (auto simp: stripped_text_def)
  show "find_elem e (atom ''summary'') = None \<longrightarrow> map_of p ''summary'' = Some (PStr (lit ''N/A''))"
    using p s by (auto simp: stripped_text_def)
  show "find_elem e (atom ''id'') = None \<longrightarrow> map_of p ''arxiv_id'' = Some (PStr (lit ''N/A''))"
    using p by auto
  show "find_elem e (arxiv ''primary_category'') = None \<longrightarrow>
           map_of p ''primary_category'' = Some (PStr (lit ''N/A''))"
    using p by auto
  show "map_of p ''authors'' = Some (PList (author_names e))"
    using p r' by auto
qed

lemma entries_loop_closed:
  "list_all well_formed_entry es \<Longrightarrow>
   \<exists>ps. entries_loop es acc = Returns (acc @ ps) \<and> list_all2 (\<lambda>e p. parse_entry e = Returns p) es ps"
proof (induction es arbitrary: acc)
  case Nil
  then show ?case by simp
next
  case (Cons e es)
  then obtain p where p: "parse_entry e = Returns p"
    using well_formed_parses by auto
  from Cons obtain ps where
    "entries_loop es (acc @ [p]) = Returns ((acc @ [p]) @ ps)"
    "list_all2 (\<lambda>e p. parse_entry e = Returns p) es ps"
    by fastforce
  then have "entries_loop (e # es) acc = Returns (acc @ (p # ps)) \<and>
      list_all2 (\<lambda>e p. parse_entry e = Returns p) (e # es) (p # ps)"
    using p by simp
  then show ?case by blast
qed

lemma entries_loop_origin:
  "entries_loop es acc = Returns ps \<Longrightarrow> p \<in> set ps \<Longrightarrow>
   p \<in> set acc \<or> (\<exists>e \<in> set es. parse_entry e = Returns p)"
  by (induction es arbitrary: acc) (fastforce split: outcome.splits)+


lemma entries_loop_tied:
  "entries_loop es acc = Returns ps \<Longrightarrow>
   \<exists>new. ps = acc @ new \<and> list_all2 (\<lambda>e p. parse_entry e = Returns p) es new"
proof (induction es arbitrary: acc)
  case Nil
  then show ?case by simp
next
  case (Cons e es)
  from Cons.prems obtain p where p: "parse_entry e = Returns p"
    by (cases "parse_entry e") auto
  with Cons.prems have "entries_loop es (acc @ [p]) = Returns ps"
    by simp
  from Cons.IH[OF this] obtain new where
    "ps = (acc @ [p]) @ new" and "list_all2 (\<lambda>e p. parse_entry e = Returns p) es new"
    by blast
  with p have "ps = acc @ (p # new) \<and> list_all2 (\<lambda>e p. parse_entry e = Returns p) (e # es) (p # new)"
    by simp
  then show ?case by blast
qed

lemma search_arxiv_tied:
  assumes "keywords \<noteq> []"
    and "http_get 0 ARXIV_API_URL (search_params quote keywords max_results) = Response status body"
    and "\<not> (400 \<le> status \<and> status < 600)"
    and "fromstring body = Some feed"
    and "fst (search_arxiv quote http_get fromstring keywords max_results) = Returns papers"
  shows "list_all2 (\<lambda>e p. parse_entry e = Returns p) (findall feed (atom ''entry'')) papers"
proof -
  from assms have "entries_loop (findall feed (atom ''entry'')) [] = Returns papers"
    by (auto simp: search_arxiv_def Let_def)
  from entries_loop_tied[OF this] show ?thesis
    by simp
qed

lemma search_arxiv_total:
  assumes "keywords \<noteq> []"
    and "http_get 0 ARXIV_API_URL (search_params quote keywords max_results) = Response status body"
    and "\<not> (400 \<le> status \<and> status < 600)"
    and "fromstring body = Some feed"
    and "well_formed_feed feed"
  shows "\<exists>papers. fst (search_arxiv quote http_get fromstring keywords max_results) = Returns papers"
proof -
  from assms(5) have "list_all well_formed_entry (findall feed (atom ''entry''))"
    by (simp add: well_formed_feed_def)
  then obtain ps where "entries_loop (findall feed (atom ''entry'')) [] = Returns ([] @ ps)"
    using entries_loop_closed by blast
  with assms(1-4) show ?thesis
    by (auto simp: search_arxiv_def Let_def)
qed

text \<open>
  C9: every paper record returned by \<open>search_arxiv\<close> has exactly the keys title, authors,
  summary, arxiv_id and primary_category, in this order. When the request succeeds and the
  body parses, the records returned are, position by position, the ones made from the entry
  elements of the feed: where the entry lacks a title, summary, id or primary-category element
  the field of its record is the string \<open>N/A\<close>, and authors is the list of the entry's
  non-empty author names. The missing elements are no error: a feed of well-formed entries
  gives a list of records, and a well-formed entry gives a record, whatever elements it lacks.
\<close>

theorem paper_record_fields:
  "(\<forall>papers. fst (search_arxiv quote http_get fromstring keywords max_results) = Returns papers \<longrightarrow>
      (\<forall>p \<in> set papers.
         map fst p = [''title'', ''authors'', ''summary'', ''arxiv_id'', ''primary_category''] \<and>
         (\<exists>e. parse_entry e = Returns p))) \<and>
   (keywords \<noteq> [] \<and>
    http_get 0 ARXIV_API_URL (search_params quote keywords max_results) = Response status body \<and>
    \<not> (400 \<le> status \<and> status < 600) \<and> fromstring body = Some feed \<longrightarrow>
      (well_formed_feed feed \<longrightarrow>
         (\<exists>papers. fst (search_arxiv quote http_get fromstring keywords max_results) = Returns papers)) \<and>
      (\<forall>papers. fst (search_arxiv quote http_get fromstring keywords max_results) = Returns papers \<longrightarrow>
         length papers = length (findall feed (atom ''entry'')) \<and>
         (\<forall>i<length papers.
            parse_entry (findall feed (atom ''entry'') ! i) = Returns (papers ! i) \<and>
            map fst (papers ! i) =
              [''title'', ''authors'', ''summary'', ''arxiv_id'', ''primary_category''] \<and>
            (find_elem (findall feed (atom ''entry'') ! i) (atom ''title'') = None \<longrightarrow>
               map_of (papers ! i) ''title'' = Some (PStr (lit ''N/A''))) \<and>
            (find_elem (findall feed (atom ''entry'') ! i) (atom ''summary'') = None \<longrightarrow>
               map_of (papers ! i) ''summary'' = Some (PStr (lit ''N/A''))) \<and>
            (find_elem (findall feed (atom ''entry'') ! i) (atom ''id'') = None \<longrightarrow>
               map_of (papers ! i) ''arxiv_id'' = Some (PStr (lit ''N/A''))) \<and>
            (find_elem (findall feed (atom ''entry'') ! i) (arxiv ''primary_category'') = None \<longrightarrow>
               map_of (papers ! i) ''primary_category'' = Some (PStr (lit ''N/A''))) \<and>
            map_of (papers ! i) ''authors'' =
              Some (PList (author_names (findall feed (atom ''entry'') ! i))) \<and>
            [] \<notin> set (author_names (findall feed (atom ''entry'') ! i))))) \<and>
   (well_formed_entry entry \<longrightarrow> (\<exists>p. parse_entry entry = Returns p)) \<and>
   (\<forall>p. parse_entry entry = Returns p \<longrightarrow>
      map fst p = [''title'', ''authors'', ''summary'', ''arxiv_id'', ''primary_category''] \<and>
      (find_elem entry (atom ''title'') = None \<longrightarrow> map_of p ''title'' = Some (PStr (lit ''N/A''))) \<and>
      (find_elem entry (atom ''summary'') = None \<longrightarrow>
         map_of p ''summary'' = Some (PStr (lit ''N/A''))) \<and>
      (find_elem entry (atom ''id'') = None \<longrightarrow> map_of p ''arxiv_id'' = Some (PStr (lit ''N/A''))) \<and>
      (find_elem entry (arxiv ''primary_category'') = None \<longrightarrow>
         map_of p ''primary_category'' = Some (PStr (lit ''N/A''))) \<and>
      map_of p ''authors'' = Some (PList (author_names entry)) \<and>
      [] \<notin> set (author_names entry))"
proof -
  let ?run = "fst (search_arxiv quote http_get fromstring keywords max_results)"
  let ?es = "findall feed (atom ''entry'')"
  have every: "map fst p = [''title'', ''authors'', ''summary'', ''arxiv_id'', ''primary_category''] \<and>
      (\<exists>e. parse_entry e = Returns p)"
    if "?run = Returns papers" and "p \<in> set papers" for papers p
  proof -
    from that obtain es where "entries_loop es [] = Returns papers"
      by (auto simp: search_arxiv_def Let_def split: if_splits http_result.splits option.splits)
    from entries_loop_origin[OF this that(2)] obtain e where "parse_entry e = Returns p"
      by auto
    then show ?thesis
      using parse_entry_fields(1) by blast
  qed
  have entry: "\<And>e p. parse_entry e = Returns p \<Longrightarrow>
      map fst p = [''title'', ''authors'', ''summary'', ''arxiv_id'', ''primary_category''] \<and>
      (find_elem e (atom ''title'') = None \<longrightarrow> map_of p ''title'' = Some (PStr (lit ''N/A''))) \<and>
      (find_elem e (atom ''summary'') = None \<longrightarrow> map_of p ''summary'' = Some (PStr (lit ''N/A''))) \<and>
      (find_elem e (atom ''id'') = None \<longrightarrow> map_of p ''arxiv_id'' = Some (PStr (lit ''N/A''))) \<and>
      (find_elem e (arxiv ''primary_category'') = None \<longrightarrow>
         map_of p ''primary_category'' = Some (PStr (lit ''N/A''))) \<and>
      map_of p ''authors'' = Some (PList (author_names e)) \<and>
      [] \<notin> set (author_names e)"
    using parse_entry_fields author_names_nonempty by blast
  have tied: "length papers = length ?es \<and>
      (\<forall>i<length papers. parse_entry (?es ! i) = Returns (papers ! i))"
    if "keywords \<noteq> []"
      and "http_get 0 ARXIV_API_URL (search_params quote keywords max_results) = Response status body"
      and "\<not> (400 \<le> status \<and> status < 600)" and "fromstring body = Some feed"
      and "?run = Returns papers" for papers
    using search_arxiv_tied[OF that] by (auto simp: list_all2_conv_all_nth)
  have total: "\<exists>papers. ?run = Returns papers"
    if "keywords \<noteq> []"
      and "http_get 0 ARXIV_API_URL (search_params quote keywords max_results) = Response status body"
      and "\<not> (400 \<le> status \<and> status < 600)" and "fromstring body = Some feed"
      and "well_formed_feed feed"
    using that by (rule search_arxiv_total)
  have made: "parse_entry (?es ! i) = Returns (papers ! i) \<and>
      map fst (papers ! i) = [''title'', ''authors'', ''summary'', ''arxiv_id'', ''primary_category''] \<and>
      (find_elem (?es ! i) (atom ''title'') = None \<longrightarrow>
         map_of (papers ! i) ''title'' = Some (PStr (lit ''N/A''))) \<and>
      (find_elem (?es ! i) (atom ''summary'') = None \<longrightarrow>
         map_of (papers ! i) ''summary'' = Some (PStr (lit ''N/A''))) \<and>
      (find_elem (?es ! i) (atom ''id'') = None \<longrightarrow>
         map_of (papers ! i) ''arxiv_id'' = Some (PStr (lit ''N/A''))) \<and>
      (find_elem (?es ! i) (arxiv ''primary_category'') = None \<longrightarrow>
         map_of (papers ! i) ''primary_category'' = Some (PStr (lit ''N/A''))) \<and>
      map_of (papers ! i) ''authors'' = Some (PList (author_names (?es ! i))) \<and>
      [] \<notin> set (author_names (?es ! i))"
    if "keywords \<noteq> []"
      and "http_get 0 ARXIV_API_URL (search_params quote keywords max_results) = Response status body"
      and "\<not> (400 \<le> status \<and> status < 600)" and "fromstring body = Some feed"
      and "?run = Returns papers" and "i < length papers" for papers i
  proof -
    from tied[OF that(1-5)] that(6) have "parse_entry (?es ! i) = Returns (papers ! i)"
      by blast
    with entry[of "?es ! i" "papers ! i"] show ?thesis
      by blast
  qed
  have all_paths: "\<forall>papers. ?run = Returns papers \<longrightarrow>
      (\<forall>p \<in> set papers.
         map fst p = [''title'', ''authors'', ''summary'', ''arxiv_id'', ''primary_category''] \<and>
         (\<exists>e. parse_entry e = Returns p))"
    using every by blast
  have one_entry: "(well_formed_entry entry \<longrightarrow> (\<exists>p. parse_entry entry = Returns p)) \<and>
      (\<forall>p. parse_entry entry = Returns p \<longrightarrow>
         map fst p = [''title'', ''authors'', ''summary'', ''arxiv_id'', ''primary_category''] \<and>
         (find_elem entry (atom ''title'') = None \<longrightarrow> map_of p ''title'' = Some (PStr (lit ''N/A''))) \<and>
         (find_elem entry (atom ''summary'') = None \<longrightarrow>
            map_of p ''summary'' = Some (PStr (lit ''N/A''))) \<and>
         (find_elem entry (atom ''id'') = None \<longrightarrow> map_of p ''arxiv_id'' = Some (PStr (lit ''N/A''))) \<and>
         (find_elem entry (arxiv ''primary_category'') = None \<longrightarrow>
            map_of p ''primary_category'' = Some (PStr (lit ''N/A''))) \<and>
         map_of p ''authors'' = Some (PList (author_names entry)) \<and>
         [] \<notin> set (author_names entry))"
    using well_formed_parses[of entry] entry[of entry] by blast
  have success_path: "keywords \<noteq> [] \<and>
      http_get 0 ARXIV_API_URL (search_params quote keywords max_results) = Response status body \<and>
      \<not> (400 \<le> status \<and> status < 600) \<and> fromstring body = Some feed \<longrightarrow>
      (well_formed_feed feed \<longrightarrow> (\<exists>papers. ?run = Returns papers)) \<and>
      (\<forall>papers. ?run = Returns papers \<longrightarrow>
         length papers = length ?es \<and>
         (\<forall>i<length papers.
            parse_entry (?es ! i) = Returns (papers ! i) \<and>
            map fst (papers ! i) =
              [''title'', ''authors'', ''summary'', ''arxiv_id'', ''primary_category''] \<and>
            (find_elem (?es ! i) (atom ''title'') = None \<longrightarrow>
               map_of (papers ! i) ''title'' = Some (PStr (lit ''N/A''))) \<and>
            (find_elem (?es ! i) (atom ''summary'') = None \<longrightarrow>
               map_of (papers ! i) ''summary'' = Some (PStr (lit ''N/A''))) \<and>
            (find_elem (?es ! i) (atom ''id'') = None \<longrightarrow>
               map_of (papers ! i) ''arxiv_id'' = Some (PStr (lit ''N/A''))) \<and>
            (find_elem (?es ! i) (arxiv ''primary_category'') = None \<longrightarrow>
               map_of (papers ! i) ''primary_category'' = Some (PStr (lit ''N/A''))) \<and>
            map_of (papers ! i) ''authors'' = Some (PList (author_names (?es ! i))) \<and>
            [] \<notin> set (author_names (?es ! i))))"
    (is "?path \<longrightarrow> ?returns \<and> (\<forall>papers. ?run = Returns papers \<longrightarrow> ?len papers \<and> ?each papers)")
  proof (rule impI)
    assume path: ?path
    have returns: ?returns
      using path total by blast
    have tie: "?len papers \<and> ?each papers" if run: "?run = Returns papers" for papers
    proof (rule conjI)
      from path run tied show "?len papers"
        by blast
      show "?each papers"
      proof (rule allI, rule impI)
        fix i
        assume "i < length papers"
        with path run show "parse_entry (?es ! i) = Returns (papers ! i) \<and>
            map fst (papers ! i) =
              [''title'', ''authors'', ''summary'', ''arxiv_id'', ''primary_category''] \<and>
            (find_elem (?es ! i) (atom ''title'') = None \<longrightarrow>
               map_of (papers ! i) ''title'' = Some (PStr (lit ''N/A''))) \<and>
            (find_elem (?es ! i) (atom ''summary'') = None \<longrightarrow>
               map_of (papers ! i) ''summary'' = Some (PStr (lit ''N/A''))) \<and>
            (find_elem (?es ! i) (atom ''id'') = None \<longrightarrow>
               map_of (papers ! i) ''arxiv_id'' = Some (PStr (lit ''N/A''))) \<and>
            (find_elem (?es ! i) (arxiv ''primary_category'') = None \<longrightarrow>
               map_of (papers ! i) ''primary_category'' = Some (PStr (lit ''N/A''))) \<and>
            map_of (papers ! i) ''authors'' = Some (PList (author_names (?es ! i))) \<and>
            [] \<notin> set (author_names (?es ! i))"
          by (intro made) simp_all
      qed
    qed
    then have "\<forall>papers. ?run = Returns papers \<longrightarrow> ?len papers \<and> ?each papers"
      by (intro allI impI)
    with returns show "?returns \<and> (\<forall>papers. ?run = Returns papers \<longrightarrow> ?len papers \<and> ?each papers)"
      by (rule conjI)
  qed
  show ?thesis
    by (rule conjI[OF all_paths conjI[OF success_path one_entry]])
qed

lemma tags_differ:
  "atom ''entry'' \<noteq> atom ''title''" "atom ''author'' \<noteq> atom ''title''"
  "atom ''author'' \<noteq> atom ''summary''" "atom ''author'' \<noteq> atom ''id''"
  "atom ''author'' \<noteq> atom ''name''" "atom ''author'' \<noteq> atom ''entry''"
  "atom ''author'' \<noteq> arxiv ''primary_category''"
  "atom ''id'' \<noteq> atom ''title''" "atom ''id'' \<noteq> atom ''summary''"
  "atom ''title'' \<noteq> atom ''summary''"
  "atom ''id'' \<noteq> arxiv ''primary_category''" "atom ''title'' \<noteq> arxiv ''primary_category''"
  "atom ''summary'' \<noteq> arxiv ''primary_category''"
  "atom ''feed'' \<noteq> atom ''entry''"
  by (simp_all add: atom_def arxiv_def lit_def)

lemma entries_of_sample_feed: "findall sample_feed (atom ''entry'') = [entry_full, entry_bare]"
  by (simp add: findall_def sample_feed_def text_elem_def entry_full_def entry_bare_def tags_differ
      tags_differ[symmetric])

lemma parse_entry_full: "parse_entry entry_full = Returns paper_full"
  by (simp add: parse_entry_def entry_full_def stripped_text_def find_elem_def findall_def
      text_elem_def author_def tags_differ tags_differ[symmetric] of_optional_def
      strip_def py_isspace_def lit_def paper_full_def)

lemma parse_entry_bare: "parse_entry entry_bare = Returns paper_bare"
  by (simp add: parse_entry_def entry_bare_def stripped_text_def find_elem_def findall_def
      text_elem_def author_def tags_differ tags_differ[symmetric] of_optional_def lit_def
      paper_bare_def)

lemma entry_bare_lacks:
  "find_elem entry_bare (atom ''title'') = None" "find_elem entry_bare (atom ''summary'') = None"
  "find_elem entry_bare (atom ''id'') = None"
  "find_elem entry_bare (arxiv ''primary_category'') = None"
  by (simp_all add: entry_bare_def find_elem_def findall_def author_def tags_differ)

lemma author_names_bare: "author_names entry_bare = [lit ''Cy'']"
  by (simp add: author_names_def author_name_def entry_bare_def find_elem_def findall_def
      author_def text_elem_def tags_differ tags_differ[symmetric] lit_def)


lemma well_formed_entry_full: "well_formed_entry entry_full"
  by (simp add: well_formed_entry_def has_text_def entry_full_def find_elem_def findall_def
      author_def text_elem_def tags_differ tags_differ[symmetric])

lemma well_formed_entry_bare: "well_formed_entry entry_bare"
  by (simp add: well_formed_entry_def has_text_def entry_bare_def find_elem_def findall_def
      author_def text_elem_def tags_differ tags_differ[symmetric])

lemma well_formed_sample_feed: "well_formed_feed sample_feed"
  by (simp add: well_formed_feed_def entries_of_sample_feed well_formed_entry_full
      well_formed_entry_bare)

lemma search_sample_feed:
  "fst (search_arxiv (\<lambda>k. k) http_ok parse_sample [lit ''LLM''] 10) = Returns [paper_full, paper_bare]"
  by (simp add: search_arxiv_def http_ok_def parse_sample_def entries_of_sample_feed
      parse_entry_full parse_entry_bare Let_def)


theorem paper_record_fields_witness:
  "\<exists>papers.
     fst (search_arxiv (\<lambda>k. k) http_ok parse_sample [lit ''LLM''] 10) = Returns papers \<and>
     length papers = 2 \<and>
     parse_entry entry_bare = Returns (papers ! 1) \<and>
     map fst (papers ! 1) = [''title'', ''authors'', ''summary'', ''arxiv_id'', ''primary_category''] \<and>
     map_of (papers ! 1) ''title'' = Some (PStr (lit ''N/A'')) \<and>
     map_of (papers ! 1) ''summary'' = Some (PStr (lit ''N/A'')) \<and>
     map_of (papers ! 1) ''arxiv_id'' = Some (PStr (lit ''N/A'')) \<and>
     map_of (papers ! 1) ''primary_category'' = Some (PStr (lit ''N/A'')) \<and>
     map_of (papers ! 1) ''authors'' = Some (PList [lit ''Cy''])"
proof -
  note inst = paper_record_fields
    [of "\<lambda>k. k" http_ok parse_sample "[lit ''LLM'']" 10 200 "''<feed/>''" sample_feed entry_bare]
  have path: "[lit ''LLM''] \<noteq> [] \<and>
      http_ok 0 ARXIV_API_URL (search_params (\<lambda>k. k) [lit ''LLM''] 10) = Response 200 ''<feed/>'' \<and>
      \<not> (400 \<le> (200::nat) \<and> (200::nat) < 600) \<and> parse_sample ''<feed/>'' = Some sample_feed"
    by (simp add: http_ok_def parse_sample_def)
  note both = inst[THEN conjunct2, THEN conjunct1, THEN mp, OF path]
  note returns = both[THEN conjunct1, THEN mp, OF well_formed_sample_feed]
  from returns obtain papers where
    run: "fst (search_arxiv (\<lambda>k. k) http_ok parse_sample [lit ''LLM''] 10) = Returns papers"
    by (rule exE)
  note tie = both[THEN conjunct2, THEN spec, THEN mp, OF run]
  from tie[THEN conjunct1] have two: "length papers = 2"
    by (simp add: entries_of_sample_feed)
  then have second: "1 < length papers"
    by simp
  note made = tie[THEN conjunct2, THEN spec, THEN mp, OF second]
  from made have "parse_entry entry_bare = Returns (papers ! 1) \<and>
     map fst (papers ! 1) = [''title'', ''authors'', ''summary'', ''arxiv_id'', ''primary_category''] \<and>
     map_of (papers ! 1) ''title'' = Some (PStr (lit ''N/A'')) \<and>
     map_of (papers ! 1) ''summary'' = Some (PStr (lit ''N/A'')) \<and>
     map_of (papers ! 1) ''arxiv_id'' = Some (PStr (lit ''N/A'')) \<and>
     map_of (papers ! 1) ''primary_category'' = Some (PStr (lit ''N/A'')) \<and>
     map_of (papers ! 1) ''authors'' = Some (PList [lit ''Cy''])"
    by (simp add: entries_of_sample_feed entry_bare_lacks author_names_bare)
  with run two show ?thesis
    by (intro exI[of _ papers] conjI) simp_all
qed




section \<open>The claim about the downloads\<close>

lemma split_nonempty: "split sep s \<noteq> []"
  by (induction s) (auto split: list.splits)

lemma split_no_sep: "sep \<notin> set s \<Longrightarrow> split sep s = [s]"
  by (induction s) (auto split: list.splits)

lemma split_single: "split sep s = [x] \<Longrightarrow> sep \<notin> set s"
  by (induction s arbitrary: x) (auto split: list.splits if_splits simp: split_nonempty)

lemma last_split: "last (split sep s) = rev (takeWhile (\<lambda>c. c \<noteq> sep) (rev s))"
proof (induction s)
  case Nil
  show ?case by simp
next
  case (Cons c cs)
  show ?case
  proof (cases "c = sep")
    case True
    then show ?thesis using Cons by (simp add: split_nonempty takeWhile_tail)
  next
    case False
    obtain seg segs where ss: "split sep cs = seg # segs"
      using split_nonempty[of sep cs] by (cases "split sep cs") auto
    show ?thesis
    proof (cases "segs = []")
      case True
      with ss have "sep \<notin> set cs" by (auto dest: split_single)
      then have "split sep cs = [cs]" by (rule split_no_sep)
      with ss True have seg: "seg = cs" by simp
      have whole: "takeWhile (\<lambda>c. c \<noteq> sep) (rev cs @ [c]) = rev cs @ [c]"
        using \<open>sep \<notin> set cs\<close> False by (auto simp: takeWhile_eq_all_conv)
      show ?thesis
        using ss True seg False by (simp add: whole del: takeWhile_eq_all_conv)
    next
      case segs: False
      with ss have "sep \<in> set cs"
        using split_no_sep[of sep cs] by auto
      then have "takeWhile (\<lambda>c. c \<noteq> sep) (rev cs @ [c]) = takeWhile (\<lambda>c. c \<noteq> sep) (rev cs)"
        by (simp add: takeWhile_append1)
      with ss segs False Cons show ?thesis by simp
    qed
  qed
qed

lemma arxiv_stem_string: "has_string_id paper \<Longrightarrow> arxiv_stem paper = Returns (stem_of paper)"
  by (auto simp: has_string_id_def arxiv_stem_def stem_of_def arxiv_id_of_def last_item_def
      last_split[symmetric] last_rev[symmetric] split_nonempty hd_rev
      split: option.splits pyval.splits list.splits)

lemma paper_events_step:
  assumes "has_string_id paper"
    and "http_get n (pdf_url (stem_of paper)) [] \<noteq> RequestError"
  shows "download_loop http_get n (paper # rest) =
           (fst (download_loop http_get (Suc n) rest),
            paper_events http_get n paper @ snd (download_loop http_get (Suc n) rest))"
  using assms
  by (cases "http_get n (pdf_url (stem_of paper)) []")
    (simp_all add: arxiv_stem_string paper_events_def pdf_url_def pdf_file_def after_response_def
      Let_def)

lemma download_loop_closed:
  assumes "\<forall>(i, paper) \<in> set (enumerate n papers).
             has_string_id paper \<and> http_get i (pdf_url (stem_of paper)) [] \<noteq> RequestError"
  shows "download_loop http_get n papers =
           (Returns (), concat (map (\<lambda>(i, paper). paper_events http_get i paper) (enumerate n papers)))"
  using assms
proof (induction papers arbitrary: n)
  case Nil
  show ?case by simp
next
  case (Cons paper rest)
  then have "has_string_id paper" "http_get n (pdf_url (stem_of paper)) [] \<noteq> RequestError"
    by auto
  then have step: "download_loop http_get n (paper # rest) =
           (fst (download_loop http_get (Suc n) rest),
            paper_events http_get n paper @ snd (download_loop http_get (Suc n) rest))"
    by (rule paper_events_step)
  have "download_loop http_get (Suc n) rest =
      (Returns (), concat (map (\<lambda>(i, paper). paper_events http_get i paper) (enumerate (Suc n) rest)))"
    using Cons.prems by (intro Cons.IH) auto
  with step show ?case by simp
qed

lemma gets_append: "gets (xs @ ys) = gets xs @ gets ys"
  by (induction xs rule: gets.induct) simp_all

lemma gets_paper_events: "gets (paper_events http_get i paper) = [pdf_url (stem_of paper)]"
  by (simp add: paper_events_def pdf_url_def split: http_result.splits)

lemma gets_all_papers:
  "gets (concat (map (\<lambda>(i, paper). paper_events http_get i paper) (enumerate n papers))) =
     map (\<lambda>paper. pdf_url (stem_of paper)) papers"
  by (induction papers arbitrary: n) (simp_all add: gets_append gets_paper_events)

text \<open>
  C8, amended: for every list of papers whose identifiers are strings, as long as no GET raises
  a transport error, \<open>download_pdfs\<close> issues one GET per paper, one after the other in the order
  of the list, to the URL made from the trailing path segment of the paper's identifier; on
  status 200 it writes the response bytes to \<open>downloaded_pdfs/<stem>.pdf\<close>, and on any other
  status it reports a failure for that paper only and goes on with the remaining papers.
\<close>

theorem download_one_get_per_paper:
  assumes "\<forall>(i, paper) \<in> set (enumerate 0 papers).
             has_string_id paper \<and> http_get i (pdf_url (stem_of paper)) [] \<noteq> RequestError"
  shows "download_pdfs http_get papers =
           (Returns (),
            Mkdir (lit ''downloaded_pdfs'') #
            concat (map (\<lambda>(i, paper). paper_events http_get i paper) (enumerate 0 papers))) \<and>
         gets (snd (download_pdfs http_get papers)) = map (\<lambda>paper. pdf_url (stem_of paper)) papers"
  using download_loop_closed[of 0 papers http_get] assms
  by (simp add: download_pdfs_def Let_def gets_all_papers)

lemma stem_full: "stem_of paper_full = lit ''2401.00001v1''"
  by (simp add: stem_of_def arxiv_id_of_def paper_full_def lit_def)

lemma stem_second: "stem_of paper_second = lit ''2401.00002v2''"
  by (simp add: stem_of_def arxiv_id_of_def paper_second_def lit_def)

text \<open>
  C8, as stated, fails. With two papers and a host that cannot be reached, the first GET
  raises; \<open>download_pdfs\<close> ends with that exception, no failure is reported and the second paper
  is never requested.
\<close>

theorem download_transport_error_counterexample:
  "fst (download_pdfs http_down [paper_full, paper_second]) = Raises RequestException \<and>
   snd (download_pdfs http_down [paper_full, paper_second]) =
     [Mkdir (lit ''downloaded_pdfs''), HttpGet (lit ''http://arxiv.org/pdf/2401.00001v1.pdf'') []] \<and>
   failure_reports (snd (download_pdfs http_down [paper_full, paper_second])) = [] \<and>
   gets (snd (download_pdfs http_down [paper_full, paper_second])) =
     [lit ''http://arxiv.org/pdf/2401.00001v1.pdf'']"
proof -
  have "has_string_id paper_full"
    by (simp add: has_string_id_def paper_full_def)
  then have "arxiv_stem paper_full = Returns (lit ''2401.00001v1'')"
    by (simp add: arxiv_stem_string stem_full)
  then show ?thesis
    by (simp add: download_pdfs_def http_down_def pdf_url_def Let_def lit_def)
qed

theorem download_one_get_per_paper_witness:
  "download_pdfs http_first_missing [paper_full, paper_second] =
     (Returns (),
      [Mkdir (lit ''downloaded_pdfs''),
       HttpGet (lit ''http://arxiv.org/pdf/2401.00001v1.pdf'') [],
       StError (lit ''Failed to download: 2401.00001v1.pdf''),
       HttpGet (lit ''http://arxiv.org/pdf/2401.00002v2.pdf'') [],
       FileWrite (lit ''downloaded_pdfs/2401.00002v2.pdf'') (Bytes ''%PDF-1.7''),
       StSuccess (lit ''Downloaded: 2401.00002v2.pdf'')]) \<and>
   gets (snd (download_pdfs http_first_missing [paper_full, paper_second])) =
     [lit ''http://arxiv.org/pdf/2401.00001v1.pdf'', lit ''http://arxiv.org/pdf/2401.00002v2.pdf'']"
proof -
  have "\<forall>(i, paper) \<in> set (enumerate 0 [paper_full, paper_second]).
      has_string_id paper \<and> http_first_missing i (pdf_url (stem_of paper)) [] \<noteq> RequestError"
    by (simp add: has_string_id_def paper_full_def paper_second_def http_first_missing_def)
  with download_one_get_per_paper [of "[paper_full, paper_second]" http_first_missing] show ?thesis
    by (simp add: paper_events_def stem_full stem_second http_first_missing_def pdf_url_def lit_def)
qed

end
